theory Spec2Isabelle
  imports Complex_Main
begin

section \<open>The even/odd game of \<open>src/App.tsx\<close>\<close>

text \<open>
  The component \<open>EvenOddGame\<close> keeps seven pieces of React state and changes them from four
  handlers: \<open>handleGuess\<close>, the callback of the one-second interval, the callback of the
  two-second timeout that a wrong guess registers, and \<open>resetGame\<close>. Each handler runs to
  completion before the next event is delivered, so a handler is a function from the state
  before it to the state after it.

  Numbers. Every number the game stores is an integer far inside the range where a
  JavaScript number is exact, so a number is an \<open>int\<close>. A read that yields \<open>undefined\<close> and
  an arithmetic result that is \<open>NaN\<close> behave alike in every operation the source applies
  to them (arithmetic gives \<open>NaN\<close>, \<open>=== 0\<close> is false); both are the value \<open>None\<close> of
  \<open>jsnum\<close>.
\<close>

subsection \<open>Types\<close>

datatype Operator = Plus | Minus | Times | Divide | Modulo

type_synonym jsnum = "int option"

text \<open>
  An entry of \<open>operators\<close> is \<open>None\<close> where the array holds \<open>undefined\<close>, which
  \<open>generateExpression\<close> pushes when it indexes an empty operator list.
\<close>

datatype Challenge =
    Number int
  | Expression "int list" "Operator option list"

datatype GameStatus = Playing | Ended

datatype Guess = Even | Odd

datatype error = TypeError

subsection \<open>The random source\<close>

text \<open>
  \<open>Math.random()\<close> is an endless supply of numbers; the model reads them from a sequence
  and hands back the rest. The language promises each draw to lie in \<open>[0, 1)\<close>, which
  \<open>valid_rng\<close> states. The products \<open>Math.random() * 10\<close> and
  \<open>Math.random() * operators.length\<close> are taken exactly; the rounding of the machine
  product can change which digit a draw gives, never the range of the digits.
\<close>

type_synonym rng = "nat \<Rightarrow> rat"

definition valid_rng :: "rng \<Rightarrow> bool" where
  "valid_rng r = (\<forall>n. 0 \<le> r n \<and> r n < 1)"

definition mathRandom :: "rng \<Rightarrow> rat \<times> rng" where
  "mathRandom r = (r 0, \<lambda>n. r (n + 1))"

definition randomInt0to9 :: "rng \<Rightarrow> int \<times> rng" where
  "randomInt0to9 r = (let (x, r1) = mathRandom r in (\<lfloor>x * 10\<rfloor>, r1))"

subsection \<open>Helpers\<close>

definition safeDivide :: "jsnum \<Rightarrow> jsnum \<Rightarrow> jsnum" where
  "safeDivide a b =
     (if b = Some 0 then Some 0
      else case (a, b) of
             (Some x, Some y) \<Rightarrow> Some (x div y)
           | _ \<Rightarrow> None)"

definition getUnlockedOperators :: "int \<Rightarrow> Operator list" where
  "getUnlockedOperators combo =
     (if combo \<ge> 30 then [Plus, Minus, Times, Divide, Modulo]
      else if combo \<ge> 20 then [Plus, Minus, Times]
      else if combo \<ge> 10 then [Plus, Minus]
      else [])"

definition getScoreGain :: "int \<Rightarrow> int" where
  "getScoreGain combo =
     (if combo \<ge> 40 then 5
      else if combo \<ge> 30 then 4
      else if combo \<ge> 20 then 3
      else if combo \<ge> 10 then 2
      else 1)"

subsection \<open>Generating challenges\<close>

text \<open>\<open>Array.from({ length: termCount }, randomInt0to9)\<close>: the digits are drawn in order.\<close>

fun randomTerms :: "nat \<Rightarrow> rng \<Rightarrow> int list \<times> rng" where
  "randomTerms 0 r = ([], r)"
| "randomTerms (Suc n) r =
     (let (d, r1) = randomInt0to9 r;
          (ds, r2) = randomTerms n r1
      in (d # ds, r2))"

text \<open>
  \<open>operators[Math.floor(Math.random() * operators.length)]\<close>: an index outside the array
  reads \<open>undefined\<close>.
\<close>

definition pickOperator :: "Operator list \<Rightarrow> rng \<Rightarrow> Operator option \<times> rng" where
  "pickOperator operators r =
     (let (x, r1) = mathRandom r;
          i = \<lfloor>x * of_nat (length operators)\<rfloor>
      in (if 0 \<le> i \<and> i < int (length operators) then Some (operators ! nat i) else None, r1))"

text \<open>The loop \<open>for (let i = 0; i < termCount - 1; i++) ops.push(...)\<close>, by its trip count.\<close>

fun pickOperators :: "nat \<Rightarrow> Operator list \<Rightarrow> rng \<Rightarrow> Operator option list \<times> rng" where
  "pickOperators 0 operators r = ([], r)"
| "pickOperators (Suc n) operators r =
     (let (p, r1) = pickOperator operators r;
          (ps, r2) = pickOperators n operators r1
      in (p # ps, r2))"

definition generateExpression :: "int \<Rightarrow> rng \<Rightarrow> Challenge \<times> rng" where
  "generateExpression combo r =
     (let operators = getUnlockedOperators combo;
          termCount = (if combo \<ge> 40 then 3 else 2 :: nat);
          (terms, r1) = randomTerms termCount r;
          (ops, r2) = pickOperators (termCount - 1) operators r1
      in (Expression terms ops, r2))"

definition generateChallenge :: "int \<Rightarrow> rng \<Rightarrow> Challenge \<times> rng" where
  "generateChallenge combo r =
     (if combo < 10 then (let (d, r1) = randomInt0to9 r in (Number d, r1))
      else (let (x, r1) = mathRandom r
            in if x < 1 / 2 then (let (d, r2) = randomInt0to9 r1 in (Number d, r2))
               else generateExpression combo r1))"

fun generateQueue :: "nat \<Rightarrow> int \<Rightarrow> rng \<Rightarrow> Challenge list \<times> rng" where
  "generateQueue 0 combo r = ([], r)"
| "generateQueue (Suc n) combo r =
     (let (c, r1) = generateChallenge combo r;
          (cs, r2) = generateQueue n combo r1
      in (c # cs, r2))"

subsection \<open>Evaluating a challenge\<close>

text \<open>\<open>terms[i]\<close>: a read past the end of the array is \<open>undefined\<close>.\<close>

definition term_at :: "int list \<Rightarrow> nat \<Rightarrow> jsnum" where
  "term_at ts i = (if i < length ts then Some (ts ! i) else None)"

text \<open>
  The remainder operator \<open>%\<close> of the language truncates: the result has the sign of the
  dividend. A zero divisor gives \<open>NaN\<close>.
\<close>

definition js_rem :: "jsnum \<Rightarrow> jsnum \<Rightarrow> jsnum" where
  "js_rem a b =
     (case (a, b) of
        (Some x, Some y) \<Rightarrow> (if y = 0 then None else Some (sgn x * (\<bar>x\<bar> mod \<bar>y\<bar>)))
      | _ \<Rightarrow> None)"

definition js_arith :: "(int \<Rightarrow> int \<Rightarrow> int) \<Rightarrow> jsnum \<Rightarrow> jsnum \<Rightarrow> jsnum" where
  "js_arith f a b = (case (a, b) of (Some x, Some y) \<Rightarrow> Some (f x y) | _ \<Rightarrow> None)"

text \<open>The body of the \<open>switch\<close>; an \<open>undefined\<close> operator matches no case.\<close>

fun applyOperator :: "Operator option \<Rightarrow> jsnum \<Rightarrow> jsnum \<Rightarrow> jsnum" where
  "applyOperator (Some Plus) result next = js_arith (+) result next"
| "applyOperator (Some Minus) result next = js_arith (-) result next"
| "applyOperator (Some Times) result next = js_arith (*) result next"
| "applyOperator (Some Divide) result next = safeDivide result next"
| "applyOperator (Some Modulo) result next =
     (if next = Some 0 then Some 0 else js_rem result next)"
| "applyOperator None result next = result"

text \<open>\<open>expr.operators.forEach((op, i) => ...)\<close>, from index \<open>i\<close> on.\<close>

fun forEachOperator :: "int list \<Rightarrow> Operator option list \<Rightarrow> nat \<Rightarrow> jsnum \<Rightarrow> jsnum" where
  "forEachOperator ts [] i result = result"
| "forEachOperator ts (op # ops) i result =
     forEachOperator ts ops (i + 1) (applyOperator op result (term_at ts (i + 1)))"

text \<open>
  \<open>evaluateExpression\<close> takes an expression challenge, given here by its two fields.
\<close>

definition evaluateExpression :: "int list \<Rightarrow> Operator option list \<Rightarrow> jsnum" where
  "evaluateExpression ts ops = forEachOperator ts ops 0 (term_at ts 0)"

fun isChallengeEven :: "Challenge \<Rightarrow> bool" where
  "isChallengeEven (Number v) = (js_rem (Some v) (Some 2) = Some 0)"
| "isChallengeEven (Expression ts ops) = (js_rem (evaluateExpression ts ops) (Some 2) = Some 0)"

subsection \<open>The state of the component\<close>

text \<open>
  The first seven fields are the \<open>useState\<close> cells. \<open>timeouts\<close> holds the callbacks that
  \<open>setTimeout\<close> has registered and the host has not run yet, oldest first, each with the
  delay in milliseconds it was registered with; the only callback the component ever
  registers is the lock expiry. \<open>rng\<close> is what is left of the random source. The sounds
  the component plays touch none of this and are left out.
\<close>

record game =
  queue :: "Challenge list"
  score :: int
  combo :: int
  timeLeft :: int
  status :: GameStatus
  feedback :: "string option"
  isLocked :: bool
  timeouts :: "nat list"
  rng :: rng

text \<open>The state of the first render: \<open>useState(() => generateQueue(5, 0))\<close> and the constants.\<close>

definition initialGame :: "rng \<Rightarrow> game" where
  "initialGame r =
     (let (q, r1) = generateQueue 5 0 r
      in \<lparr>queue = q, score = 0, combo = 0, timeLeft = 60, status = Ended,
          feedback = None, isLocked = False, timeouts = [], rng = r1\<rparr>)"

text \<open>The decimal text of an integer, as a template literal prints it.\<close>

fun natToString :: "nat \<Rightarrow> string" where
  "natToString n =
     (if n < 10 then [''0123456789'' ! n]
      else natToString (n div 10) @ [''0123456789'' ! (n mod 10)])"

declare natToString.simps [simp del]

definition numberToString :: "int \<Rightarrow> string" where
  "numberToString i = (if i < 0 then CHR ''-'' # natToString (nat (- i)) else natToString (nat i))"

subsection \<open>The handlers\<close>

text \<open>
  The interval exists exactly while \<open>status\<close> is \<open>"playing"\<close>: the effect that creates it
  returns at once otherwise, and its cleanup clears it when \<open>status\<close> changes. \<open>tick\<close> is
  one firing of the interval; \<open>tickPeriod\<close> is its period in milliseconds.
\<close>

definition tickPeriod :: nat where
  "tickPeriod = 1000"

definition tick :: "game \<Rightarrow> game" where
  "tick s =
     (if status s \<noteq> Playing then s
      else if timeLeft s \<le> 1 then s\<lparr>status := Ended, timeLeft := 0\<rparr>
      else s\<lparr>timeLeft := timeLeft s - 1\<rparr>)"

definition advanceQueue :: "int \<Rightarrow> game \<Rightarrow> game" where
  "advanceQueue newCombo s =
     (let (c, r1) = generateChallenge newCombo (rng s)
      in s\<lparr>queue := drop 1 (queue s) @ [c], rng := r1\<rparr>)"

text \<open>The constant \<open>correct\<close> that \<open>handleGuess\<close> computes from the guess and \<open>current\<close>.\<close>

definition correct :: "Guess \<Rightarrow> Challenge \<Rightarrow> bool" where
  "correct guess current =
     ((guess = Even \<and> isChallengeEven current) \<or> (guess = Odd \<and> \<not> isChallengeEven current))"

text \<open>
  \<open>current\<close> is \<open>queue[0]\<close>; on an empty queue it is \<open>undefined\<close> and reading its \<open>type\<close>
  throws. A wrong guess registers the lock expiry with \<open>setTimeout(..., 2000)\<close>.
\<close>

definition handleGuess :: "Guess \<Rightarrow> game \<Rightarrow> error + game" where
  "handleGuess guess s =
     (if status s \<noteq> Playing \<or> isLocked s then Inr s
      else case queue s of
             [] \<Rightarrow> Inl TypeError
           | current # _ \<Rightarrow>
               if correct guess current then
                 (let nextCombo = combo s + 1;
                      scoreGain = getScoreGain nextCombo
                  in Inr (advanceQueue nextCombo
                            (s\<lparr>score := score s + scoreGain, combo := nextCombo,
                               feedback := Some (CHR ''+'' # numberToString scoreGain)\<rparr>)))
               else Inr (s\<lparr>feedback := Some ''Wrong!'', combo := 0, isLocked := True,
                           timeouts := timeouts s @ [2000]\<rparr>))"

text \<open>
  The host runs the oldest registered callback; every callback has the same delay, so
  they come due in the order of their registration. With nothing registered there is
  nothing to run.
\<close>

definition lockExpiry :: "game \<Rightarrow> game" where
  "lockExpiry s =
     (case timeouts s of
        [] \<Rightarrow> s
      | _ # rest \<Rightarrow> advanceQueue 0 (s\<lparr>isLocked := False, feedback := None, timeouts := rest\<rparr>))"

definition resetGame :: "game \<Rightarrow> game" where
  "resetGame s =
     (let (q, r1) = generateQueue 5 0 (rng s)
      in s\<lparr>score := 0, combo := 0, timeLeft := 60, status := Playing, feedback := None,
           isLocked := False, queue := q, rng := r1\<rparr>)"

subsection \<open>Runs of the component\<close>

datatype event = GuessEv Guess | TickEv | LockExpiryEv | ResetEv

fun step :: "event \<Rightarrow> game \<Rightarrow> error + game" where
  "step (GuessEv g) s = handleGuess g s"
| "step TickEv s = Inr (tick s)"
| "step LockExpiryEv s = Inr (lockExpiry s)"
| "step ResetEv s = Inr (resetGame s)"

fun run :: "event list \<Rightarrow> game \<Rightarrow> error + game" where
  "run [] s = Inr s"
| "run (e # es) s = (case step e s of Inl err \<Rightarrow> Inl err | Inr s1 \<Rightarrow> run es s1)"

subsection \<open>The evaluator as the specification words it\<close>

text \<open>
  The specification describes evaluation as a fold, left to right, that starts from the
  first term. \<open>spec_step\<close> is one step in its words: the three ring operations; for
  integer-divide the floor of the exact quotient, and 0 when the next term is 0; for
  modulo \<open>result % next\<close>, and 0 when the next term is 0. The operator \<open>%\<close> is the remainder
  of the division whose quotient is rounded toward zero, which \<open>spec_remainder\<close> writes
  out; on a non-negative result and a positive term it is the usual \<open>mod\<close>.
\<close>

definition spec_remainder :: "int \<Rightarrow> int \<Rightarrow> int" where
  "spec_remainder a b = a - b * (sgn a * sgn b * (\<bar>a\<bar> div \<bar>b\<bar>))"

fun spec_step :: "int \<Rightarrow> Operator \<times> int \<Rightarrow> int" where
  "spec_step result (Plus, next) = result + next"
| "spec_step result (Minus, next) = result - next"
| "spec_step result (Times, next) = result * next"
| "spec_step result (Divide, next) =
     (if next = 0 then 0 else \<lfloor>rat_of_int result / rat_of_int next\<rfloor>)"
| "spec_step result (Modulo, next) = (if next = 0 then 0 else spec_remainder result next)"

definition spec_evaluate :: "int list \<Rightarrow> Operator list \<Rightarrow> int" where
  "spec_evaluate ts ops = foldl spec_step (hd ts) (zip ops (tl ts))"

subsection \<open>A sample random source\<close>

text \<open>The draws 0, 0.1, ..., 0.9, over and over: the digits 0 to 9 in turn.\<close>

definition cyclic_digits :: rng where
  "cyclic_digits n = rat_of_nat (n mod 10) / 10"

subsection \<open>What every reachable state satisfies\<close>

text \<open>
  The queue holds five challenges, the clock stays between 0 and 60, and while the round is
  being played at least one second is left.
\<close>

definition game_inv :: "game \<Rightarrow> bool" where
  "game_inv s =
     (length (queue s) = 5 \<and> 0 \<le> timeLeft s \<and> timeLeft s \<le> 60 \<and>
      (status s = Playing \<longrightarrow> 1 \<le> timeLeft s))"

subsection \<open>Sample states\<close>

text \<open>A round in progress at combo 9, the queue showing 5, 6, 7, 8, 9.\<close>

definition combo9_game :: game where
  "combo9_game = (resetGame (initialGame cyclic_digits))\<lparr>score := 9, combo := 9\<rparr>"

text \<open>A round in progress in which a wrong guess has just engaged the lock.\<close>

definition locked_game :: game where
  "locked_game = (resetGame (initialGame cyclic_digits))
     \<lparr>feedback := Some ''Wrong!'', isLocked := True, timeouts := [2000]\<rparr>"

section \<open>Properties\<close>

subsection \<open>The random source and the generators\<close>

lemma mathRandom_valid:
  assumes "valid_rng r"
  shows "0 \<le> fst (mathRandom r)" and "fst (mathRandom r) < 1" and "valid_rng (snd (mathRandom r))"
  using assms by (simp_all add: mathRandom_def valid_rng_def)

lemma randomInt0to9_range:
  assumes "valid_rng r"
  shows "0 \<le> fst (randomInt0to9 r)" and "fst (randomInt0to9 r) \<le> 9"
    and "valid_rng (snd (randomInt0to9 r))"
proof -
  obtain x r1 where m: "mathRandom r = (x, r1)" by (cases "mathRandom r")
  from mathRandom_valid [OF assms] m have x: "0 \<le> x" "x < 1" and r1: "valid_rng r1" by simp_all
  have eq: "randomInt0to9 r = (\<lfloor>x * 10\<rfloor>, r1)" by (simp add: randomInt0to9_def m)
  from x have "0 \<le> x * 10" "x * 10 < 10" by simp_all
  then have "0 \<le> \<lfloor>x * 10\<rfloor>" "\<lfloor>x * 10\<rfloor> < 10" by (simp_all add: floor_less_iff)
  with eq r1 show "0 \<le> fst (randomInt0to9 r)" "fst (randomInt0to9 r) \<le> 9"
    "valid_rng (snd (randomInt0to9 r))" by simp_all
qed

lemma randomTerms_shape:
  "valid_rng r \<Longrightarrow>
   length (fst (randomTerms n r)) = n \<and> (\<forall>t \<in> set (fst (randomTerms n r)). 0 \<le> t \<and> t \<le> 9) \<and>
   valid_rng (snd (randomTerms n r))"
proof (induction n arbitrary: r)
  case 0
  then show ?case by simp
next
  case (Suc n)
  obtain d r1 where d: "randomInt0to9 r = (d, r1)" by (cases "randomInt0to9 r")
  obtain ds r2 where ds: "randomTerms n r1 = (ds, r2)" by (cases "randomTerms n r1")
  from randomInt0to9_range [OF Suc.prems] d have dr: "0 \<le> d" "d \<le> 9" "valid_rng r1" by simp_all
  from Suc.IH [OF dr(3)] ds have "length ds = n" "\<forall>t \<in> set ds. 0 \<le> t \<and> t \<le> 9" "valid_rng r2"
    by simp_all
  with dr d ds show ?case by simp
qed

lemma pickOperator_member:
  assumes "valid_rng r" and "operators \<noteq> []"
  shows "\<exists>op \<in> set operators. fst (pickOperator operators r) = Some op"
    and "valid_rng (snd (pickOperator operators r))"
proof -
  obtain x r1 where m: "mathRandom r = (x, r1)" by (cases "mathRandom r")
  from mathRandom_valid [OF assms(1)] m have x: "0 \<le> x" "x < 1" and r1: "valid_rng r1" by simp_all
  let ?n = "length operators"
  let ?i = "\<lfloor>x * of_nat ?n\<rfloor>"
  from assms(2) have n: "0 < ?n" by simp
  have "0 \<le> x * of_nat ?n" using x by simp
  then have lo: "0 \<le> ?i" by simp
  have "x * of_nat ?n < 1 * of_nat ?n" using x n by (intro mult_strict_right_mono) simp_all
  then have "x * of_nat ?n < of_int (int ?n)" by simp
  then have hi: "?i < int ?n" by (simp only: floor_less_iff)
  from lo hi have "nat ?i < ?n" by linarith
  then have "operators ! nat ?i \<in> set operators" by simp
  moreover have "fst (pickOperator operators r) = Some (operators ! nat ?i)"
    using lo hi by (simp add: pickOperator_def m Let_def)
  ultimately show "\<exists>op \<in> set operators. fst (pickOperator operators r) = Some op" by blast
  show "valid_rng (snd (pickOperator operators r))" using r1 by (simp add: pickOperator_def m Let_def)
qed

lemma pickOperators_shape:
  "valid_rng r \<Longrightarrow> operators \<noteq> [] \<Longrightarrow>
   length (fst (pickOperators n operators r)) = n \<and>
   (\<forall>p \<in> set (fst (pickOperators n operators r)). \<exists>op \<in> set operators. p = Some op) \<and>
   valid_rng (snd (pickOperators n operators r))"
proof (induction n arbitrary: r)
  case 0
  then show ?case by simp
next
  case (Suc n)
  obtain p r1 where p: "pickOperator operators r = (p, r1)" by (cases "pickOperator operators r")
  obtain ps r2 where ps: "pickOperators n operators r1 = (ps, r2)"
    by (cases "pickOperators n operators r1")
  from pickOperator_member [OF Suc.prems] p
  have pr: "\<exists>op \<in> set operators. p = Some op" "valid_rng r1" by simp_all
  from Suc.IH [OF pr(2) Suc.prems(2)] ps
  have "length ps = n" "\<forall>q \<in> set ps. \<exists>op \<in> set operators. q = Some op" "valid_rng r2"
    by simp_all
  with pr p ps show ?case by simp
qed

lemma getUnlockedOperators_nonempty: "10 \<le> c \<Longrightarrow> getUnlockedOperators c \<noteq> []"
  by (simp add: getUnlockedOperators_def)

lemma generateExpression_shape:
  assumes "valid_rng r" and "10 \<le> c"
  shows "\<exists>ts ops. fst (generateExpression c r) = Expression ts ops \<and>
           length ts = (if 40 \<le> c then 3 else 2) \<and> length ops = length ts - 1 \<and>
           (\<forall>t \<in> set ts. 0 \<le> t \<and> t \<le> 9) \<and>
           (\<forall>p \<in> set ops. \<exists>op \<in> set (getUnlockedOperators c). p = Some op)"
    and "valid_rng (snd (generateExpression c r))"
proof -
  let ?n = "if 40 \<le> c then 3 else 2 :: nat"
  obtain ts r1 where ts: "randomTerms ?n r = (ts, r1)" by (cases "randomTerms ?n r")
  obtain ops r2 where ops: "pickOperators (?n - 1) (getUnlockedOperators c) r1 = (ops, r2)"
    by (cases "pickOperators (?n - 1) (getUnlockedOperators c) r1")
  from randomTerms_shape [OF assms(1), of ?n] ts
  have t: "length ts = ?n" "\<forall>t \<in> set ts. 0 \<le> t \<and> t \<le> 9" "valid_rng r1" by simp_all
  from pickOperators_shape [OF t(3) getUnlockedOperators_nonempty [OF assms(2)], of "?n - 1"] ops
  have p: "length ops = ?n - 1"
    "\<forall>p \<in> set ops. \<exists>op \<in> set (getUnlockedOperators c). p = Some op" "valid_rng r2"
    by simp_all
  have eq: "generateExpression c r = (Expression ts ops, r2)"
    using ts ops by (simp add: generateExpression_def Let_def)
  from eq t p show "\<exists>ts ops. fst (generateExpression c r) = Expression ts ops \<and>
           length ts = (if 40 \<le> c then 3 else 2) \<and> length ops = length ts - 1 \<and>
           (\<forall>t \<in> set ts. 0 \<le> t \<and> t \<le> 9) \<and>
           (\<forall>p \<in> set ops. \<exists>op \<in> set (getUnlockedOperators c). p = Some op)"
    by (simp split: if_splits)
  from eq p show "valid_rng (snd (generateExpression c r))" by simp
qed

lemma generateChallenge_cases:
  "(\<exists>d. fst (generateChallenge c r) = Number d \<and> d = fst (randomInt0to9 (if c < 10 then r else snd (mathRandom r)))) \<or>
   (10 \<le> c \<and> generateChallenge c r = generateExpression c (snd (mathRandom r)))"
  by (simp add: generateChallenge_def Let_def split: prod.splits)

lemma generateChallenge_valid:
  assumes "valid_rng r"
  shows "valid_rng (snd (generateChallenge c r))"
proof -
  note a = mathRandom_valid(3) [OF assms]
  show ?thesis
    using randomInt0to9_range(3) [OF assms] randomInt0to9_range(3) [OF a]
      generateExpression_shape(2) [OF a]
    by (auto simp add: generateChallenge_def Let_def split: prod.splits)
qed

lemma generateQueue_length: "length (fst (generateQueue n c r)) = n"
proof (induction n arbitrary: r)
  case 0
  then show ?case by simp
next
  case (Suc n)
  obtain x r1 where x: "generateChallenge c r = (x, r1)" by (cases "generateChallenge c r")
  obtain xs r2 where xs: "generateQueue n c r1 = (xs, r2)" by (cases "generateQueue n c r1")
  from Suc.IH [of r1] xs have "length xs = n" by simp
  with x xs show ?case by simp
qed

lemma generateQueue_valid: "valid_rng r \<Longrightarrow> valid_rng (snd (generateQueue n c r))"
proof (induction n arbitrary: r)
  case 0 then show ?case by simp
next
  case (Suc n)
  obtain x r1 where x: "generateChallenge c r = (x, r1)" by (cases "generateChallenge c r")
  obtain xs r2 where xs: "generateQueue n c r1 = (xs, r2)" by (cases "generateQueue n c r1")
  from generateChallenge_valid [OF Suc.prems, of c] x have "valid_rng r1" by simp
  from Suc.IH [OF this] xs have "valid_rng r2" by simp
  with x xs show ?case by simp
qed


subsection \<open>The shape of a generated challenge\<close>

text \<open>
  Claim C7. With every draw of the random source in \<open>[0, 1)\<close>: below combo 10,
  \<open>generateChallenge\<close> returns a number challenge whose value is a digit from 0 to 9; and
  whenever it returns an expression challenge, at any combo, that challenge has three terms
  if the combo is at least 40 and two otherwise, one operator fewer than terms, every term
  a digit from 0 to 9, and every operator a member of \<open>getUnlockedOperators\<close> of that
  combo (none of them \<open>undefined\<close>).
\<close>

theorem generateChallenge_shape:
  assumes "valid_rng r"
  shows "(c1 < 10 \<longrightarrow> (\<exists>d. fst (generateChallenge c1 r) = Number d \<and> 0 \<le> d \<and> d \<le> 9)) \<and>
         (fst (generateChallenge c2 r) = Expression ts ops \<longrightarrow>
            length ts = (if 40 \<le> c2 then 3 else 2) \<and> length ops = length ts - 1 \<and>
            (\<forall>t \<in> set ts. 0 \<le> t \<and> t \<le> 9) \<and>
            (\<forall>p \<in> set ops. \<exists>op \<in> set (getUnlockedOperators c2). p = Some op))"
proof (intro conjI impI)
  assume "c1 < 10"
  then show "\<exists>d. fst (generateChallenge c1 r) = Number d \<and> 0 \<le> d \<and> d \<le> 9"
    using randomInt0to9_range [OF assms]
    by (auto simp add: generateChallenge_def Let_def split: prod.splits)
next
  assume e: "fst (generateChallenge c2 r) = Expression ts ops"
  from generateChallenge_cases [of c2 r] e
  have c: "10 \<le> c2"
    and g: "generateChallenge c2 r = generateExpression c2 (snd (mathRandom r))"
    by auto
  from generateExpression_shape(1) [OF mathRandom_valid(3) [OF assms] c] g e
  have "length ts = (if 40 \<le> c2 then 3 else 2) \<and> length ops = length ts - 1 \<and>
        (\<forall>t \<in> set ts. 0 \<le> t \<and> t \<le> 9) \<and>
        (\<forall>p \<in> set ops. \<exists>op \<in> set (getUnlockedOperators c2). p = Some op)"
    by auto
  then show "length ts = (if 40 \<le> c2 then 3 else 2)" "length ops = length ts - 1"
    "\<forall>t \<in> set ts. 0 \<le> t \<and> t \<le> 9"
    "\<forall>p \<in> set ops. \<exists>op \<in> set (getUnlockedOperators c2). p = Some op"
    by simp_all
qed

theorem generateChallenge_shape_witness:
  "valid_rng (\<lambda>n. 7 / 10) \<and> (5::int) < 10 \<and>
   fst (generateChallenge 5 (\<lambda>n. 7 / 10)) = Number 7 \<and>
   fst (generateChallenge 45 (\<lambda>n. 7 / 10)) = Expression [7, 7, 7] [Some Divide, Some Divide] \<and>
   length [7, 7, 7 :: int] = 3 \<and> Divide \<in> set (getUnlockedOperators 45)"
proof -
  have v: "valid_rng (\<lambda>n. 7 / 10)" by (simp add: valid_rng_def)
  have e: "fst (generateChallenge 45 (\<lambda>n. 7 / 10)) = Expression [7, 7, 7] [Some Divide, Some Divide]"
    by code_simp
  have n: "fst (generateChallenge 5 (\<lambda>n. 7 / 10)) = Number 7"
    by code_simp
  from generateChallenge_shape [OF v, of 5 45 "[7, 7, 7]" "[Some Divide, Some Divide]"] v e n
  show ?thesis by simp
qed

lemma js_rem_spec_remainder:
  "sgn x * (\<bar>x\<bar> mod \<bar>y\<bar>) = spec_remainder x y"
proof -
  define q where "q = \<bar>x\<bar> div \<bar>y\<bar>"
  have m: "\<bar>x\<bar> mod \<bar>y\<bar> = \<bar>x\<bar> - \<bar>y\<bar> * q"
    by (simp add: q_def minus_mult_div_eq_mod)
  have "sgn x * (\<bar>x\<bar> - \<bar>y\<bar> * q) = x - y * (sgn x * sgn y * q)"
    by (simp add: sgn_if abs_if algebra_simps)
  then show ?thesis by (simp add: m spec_remainder_def q_def)
qed

lemma applyOperator_spec_step:
  "applyOperator (Some op) (Some acc) (Some n) = Some (spec_step acc (op, n))"
  by (cases op)
     (simp_all add: js_arith_def safeDivide_def js_rem_def floor_divide_of_int_eq
        js_rem_spec_remainder)

lemma forEachOperator_foldl:
  "i + length ops < length ts \<Longrightarrow>
   forEachOperator ts (map Some ops) i (Some acc) =
     Some (foldl spec_step acc (zip ops (drop (Suc i) ts)))"
proof (induction ops arbitrary: i acc)
  case Nil
  then show ?case by simp
next
  case (Cons op ops)
  from Cons.prems have i: "Suc i < length ts" and j: "Suc i + length ops < length ts"
    by simp_all
  from i have d: "drop (Suc i) ts = ts ! Suc i # drop (Suc (Suc i)) ts"
    by (simp add: Cons_nth_drop_Suc)
  from i have t: "term_at ts (Suc i) = Some (ts ! Suc i)" by (simp add: term_at_def)
  show ?case
    using Cons.IH [OF j, of "spec_step acc (op, ts ! Suc i)"]
    by (simp add: t applyOperator_spec_step d del: spec_step.simps)
qed

lemma evaluateExpression_spec:
  assumes "ts \<noteq> []" and "length ops = length ts - 1"
  shows "evaluateExpression ts (map Some ops) = Some (spec_evaluate ts ops)"
proof -
  from assms have l: "0 + length ops < length ts" by (cases ts) simp_all
  from assms(1) have h: "term_at ts 0 = Some (hd ts)" by (cases ts) (simp_all add: term_at_def)
  show ?thesis
    using forEachOperator_foldl [OF l, of "hd ts"]
    by (simp add: evaluateExpression_def h spec_evaluate_def drop_Suc)
qed

lemma spec_remainder_nonneg: "0 \<le> a \<Longrightarrow> 0 < b \<Longrightarrow> spec_remainder a b = a mod b"
  using js_rem_spec_remainder [of a b] by (simp add: sgn_if split: if_splits)

subsection \<open>Evaluation\<close>

text \<open>
  Claim C2. On every expression challenge of the documented shape (at least one term, one
  operator fewer than terms, every operator present), \<open>evaluateExpression\<close> returns a
  number, and that number is the left-to-right fold of the specification: it starts from
  \<open>terms[0]\<close> and applies add, subtract and multiply as integer operations, integer-divide
  as the floor of the quotient with 0 for a zero divisor, and modulo as \<open>%\<close> with 0 for a
  zero divisor, where \<open>%\<close> agrees with \<open>mod\<close> on a non-negative result. Terms \<open>[7, 0]\<close>
  with divide and terms \<open>[5, 0]\<close> with modulo both evaluate to the number 0.
\<close>

theorem evaluateExpression_left_to_right:
  "(ts \<noteq> [] \<and> length ops = length ts - 1 \<longrightarrow>
      evaluateExpression ts (map Some ops) = Some (spec_evaluate ts ops)) \<and>
   evaluateExpression [7, 0] [Some Divide] = Some 0 \<and>
   evaluateExpression [5, 0] [Some Modulo] = Some 0 \<and>
   (0 \<le> a \<and> 0 < b \<longrightarrow> spec_remainder a b = a mod b)"
  by (simp add: evaluateExpression_spec spec_remainder_nonneg)
     (simp add: evaluateExpression_def term_at_def safeDivide_def)

theorem evaluateExpression_left_to_right_witness:
  "[8, 3, 2] \<noteq> ([] :: int list) \<and> length [Minus, Modulo] = length [8, 3, 2 :: int] - 1 \<and>
   evaluateExpression [8, 3, 2] [Some Minus, Some Modulo] = Some 1 \<and>
   spec_evaluate [8, 3, 2] [Minus, Modulo] = 1 \<and>
   (0::int) \<le> 5 \<and> (0::int) < 2 \<and> spec_remainder 5 2 = 1"
proof -
  have "spec_evaluate [8, 3, 2] [Minus, Modulo] = 1"
    by (simp add: spec_evaluate_def spec_remainder_def)
  with evaluateExpression_left_to_right [of "[8, 3, 2]" "[Minus, Modulo]" 5 2]
  show ?thesis by simp
qed

lemma js_rem_2: "(js_rem (Some v) (Some 2) = Some 0) = even v"
proof -
  have "\<bar>v\<bar> mod 2 = 0 \<longleftrightarrow> even v" by presburger
  then show ?thesis by (auto simp add: js_rem_def sgn_if)
qed

lemma isChallengeEven_parity:
  "isChallengeEven (Number v) = even v"
  "isChallengeEven (Expression ts ops) = (\<exists>v. evaluateExpression ts ops = Some v \<and> even v)"
proof -
  show "isChallengeEven (Number v) = even v" by (simp add: js_rem_2)
  show "isChallengeEven (Expression ts ops) = (\<exists>v. evaluateExpression ts ops = Some v \<and> even v)"
  proof (cases "evaluateExpression ts ops")
    case None
    then show ?thesis by (simp add: js_rem_def)
  next
    case (Some v)
    then show ?thesis by (simp add: js_rem_2)
  qed
qed

subsection \<open>The difficulty policy\<close>

text \<open>
  Claim C8. \<open>getUnlockedOperators\<close> returns no operator below combo 10, add and subtract from
  10 up to but excluding 20, add, subtract and multiply from 20 up to but excluding 30,
  and all five operators (the whole type) from 30 on. So from combo 10 on the set is not
  empty, and a combo that is not smaller never has fewer operators.
\<close>

theorem getUnlockedOperators_tiers:
  "set (getUnlockedOperators c) =
     (if c < 10 then {}
      else if c < 20 then {Plus, Minus}
      else if c < 30 then {Plus, Minus, Times}
      else {Plus, Minus, Times, Divide, Modulo}) \<and>
   {Plus, Minus, Times, Divide, Modulo} = (UNIV :: Operator set) \<and>
   (10 \<le> c \<longrightarrow> set (getUnlockedOperators c) \<noteq> {}) \<and>
   (c1 \<le> c2 \<longrightarrow> set (getUnlockedOperators c1) \<subseteq> set (getUnlockedOperators c2))"
proof (intro conjI impI)
  show "{Plus, Minus, Times, Divide, Modulo} = (UNIV :: Operator set)"
  proof -
    have "x \<in> {Plus, Minus, Times, Divide, Modulo}" for x by (cases x) simp_all
    then show ?thesis by blast
  qed
qed (auto simp add: getUnlockedOperators_def)

theorem getUnlockedOperators_tiers_witness:
  "(10::int) \<le> 25 \<and> (15::int) \<le> 25 \<and> set (getUnlockedOperators 25) = {Plus, Minus, Times} \<and>
   set (getUnlockedOperators 15) = {Plus, Minus} \<and>
   set (getUnlockedOperators 25) \<noteq> {}"
  using getUnlockedOperators_tiers [of 25 15 25] by (simp add: getUnlockedOperators_def)

lemma advanceQueue_fields:
  "score (advanceQueue n s) = score s"
  "combo (advanceQueue n s) = combo s"
  "timeLeft (advanceQueue n s) = timeLeft s"
  "status (advanceQueue n s) = status s"
  "feedback (advanceQueue n s) = feedback s"
  "isLocked (advanceQueue n s) = isLocked s"
  "timeouts (advanceQueue n s) = timeouts s"
  "queue (advanceQueue n s) = drop 1 (queue s) @ [fst (generateChallenge n (rng s))]"
  "rng (advanceQueue n s) = snd (generateChallenge n (rng s))"
  by (simp_all add: advanceQueue_def case_prod_beta)

lemma resetGame_fields:
  "score (resetGame s) = 0"
  "combo (resetGame s) = 0"
  "timeLeft (resetGame s) = 60"
  "status (resetGame s) = Playing"
  "feedback (resetGame s) = None"
  "isLocked (resetGame s) = False"
  "timeouts (resetGame s) = timeouts s"
  "queue (resetGame s) = fst (generateQueue 5 0 (rng s))"
  "rng (resetGame s) = snd (generateQueue 5 0 (rng s))"
  by (simp_all add: resetGame_def case_prod_beta)

lemma initialGame_fields:
  "score (initialGame r) = 0"
  "combo (initialGame r) = 0"
  "timeLeft (initialGame r) = 60"
  "status (initialGame r) = Ended"
  "feedback (initialGame r) = None"
  "isLocked (initialGame r) = False"
  "timeouts (initialGame r) = []"
  "queue (initialGame r) = fst (generateQueue 5 0 r)"
  "rng (initialGame r) = snd (generateQueue 5 0 r)"
  by (simp_all add: initialGame_def case_prod_beta)

lemma lockExpiry_fields:
  assumes "timeouts s = t # rest"
  shows "score (lockExpiry s) = score s"
    "combo (lockExpiry s) = combo s"
    "timeLeft (lockExpiry s) = timeLeft s"
    "status (lockExpiry s) = status s"
    "feedback (lockExpiry s) = None"
    "isLocked (lockExpiry s) = False"
    "timeouts (lockExpiry s) = rest"
    "queue (lockExpiry s) = drop 1 (queue s) @ [fst (generateChallenge 0 (rng s))]"
    "rng (lockExpiry s) = snd (generateChallenge 0 (rng s))"
  using assms by (simp_all add: lockExpiry_def advanceQueue_fields)

lemma lockExpiry_idle: "timeouts s = [] \<Longrightarrow> lockExpiry s = s"
  by (simp add: lockExpiry_def)

lemma handleGuess_ignored:
  "status s \<noteq> Playing \<or> isLocked s \<Longrightarrow> handleGuess g s = Inr s"
  by (auto simp add: handleGuess_def)

lemma handleGuess_correct:
  assumes "status s = Playing" and "\<not> isLocked s" and "queue s = current # rest"
    and "correct g current"
  shows "handleGuess g s =
     Inr (advanceQueue (combo s + 1)
            (s\<lparr>score := score s + getScoreGain (combo s + 1), combo := combo s + 1,
               feedback := Some (CHR ''+'' # numberToString (getScoreGain (combo s + 1)))\<rparr>))"
  using assms by (simp add: handleGuess_def Let_def)

lemma handleGuess_wrong:
  assumes "status s = Playing" and "\<not> isLocked s" and "queue s = current # rest"
    and "\<not> correct g current"
  shows "handleGuess g s =
     Inr (s\<lparr>feedback := Some ''Wrong!'', combo := 0, isLocked := True,
            timeouts := timeouts s @ [2000]\<rparr>)"
  using assms by (simp add: handleGuess_def)

lemma tick_ended: "status s \<noteq> Playing \<Longrightarrow> tick s = s"
  by (simp add: tick_def)

lemma tick_fields:
  "queue (tick s) = queue s" "score (tick s) = score s" "combo (tick s) = combo s"
  "feedback (tick s) = feedback s" "isLocked (tick s) = isLocked s"
  "timeouts (tick s) = timeouts s" "rng (tick s) = rng s"
  by (simp_all add: tick_def)

subsection \<open>The handlers\<close>

text \<open>
  Claim C3. \<open>getScoreGain\<close> is the tier function: 1 below combo 10, 2 from 10 up to but
  excluding 20, 3 from 20 up to but excluding 30, 4 from 30 up to but excluding 40, and 5
  from 40 on; in particular it is 1 at 9, 2 at 10, 4 at 39 and 5 at 40. A correct guess is
  one that \<open>handleGuess\<close> judges (the round is being played and the lock is off) and finds
  correct for the front challenge: it raises the combo by one and the score by exactly
  \<open>getScoreGain\<close> of the raised combo.
\<close>

theorem correct_guess_gain:
  "getScoreGain c =
     (if c < 10 then 1 else if c < 20 then 2 else if c < 30 then 3 else if c < 40 then 4 else 5) \<and>
   getScoreGain 9 = 1 \<and> getScoreGain 10 = 2 \<and> getScoreGain 39 = 4 \<and> getScoreGain 40 = 5 \<and>
   (status s = Playing \<and> \<not> isLocked s \<and> queue s = current # rest \<and> correct g current \<longrightarrow>
      (\<exists>s1. handleGuess g s = Inr s1 \<and> combo s1 = combo s + 1 \<and>
            score s1 = score s + getScoreGain (combo s + 1)))"
proof (intro conjI impI)
  assume "status s = Playing \<and> \<not> isLocked s \<and> queue s = current # rest \<and> correct g current"
  then have "handleGuess g s =
     Inr (advanceQueue (combo s + 1)
            (s\<lparr>score := score s + getScoreGain (combo s + 1), combo := combo s + 1,
               feedback := Some (CHR ''+'' # numberToString (getScoreGain (combo s + 1)))\<rparr>))"
    by (simp add: handleGuess_correct)
  then show "\<exists>s1. handleGuess g s = Inr s1 \<and> combo s1 = combo s + 1 \<and>
            score s1 = score s + getScoreGain (combo s + 1)"
    by (simp add: advanceQueue_fields)
qed (simp_all add: getScoreGain_def)

lemma combo9_game_fields:
  "status combo9_game = Playing" "\<not> isLocked combo9_game" "combo combo9_game = 9"
  "score combo9_game = 9"
  "queue combo9_game = [Number 5, Number 6, Number 7, Number 8, Number 9]"
  by (simp_all add: combo9_game_def resetGame_fields initialGame_fields) code_simp

theorem correct_guess_gain_witness:
  "status combo9_game = Playing \<and> \<not> isLocked combo9_game \<and>
   queue combo9_game = Number 5 # [Number 6, Number 7, Number 8, Number 9] \<and>
   correct Odd (Number 5) \<and>
   map_sum id combo (handleGuess Odd combo9_game) = Inr 10 \<and>
   map_sum id score (handleGuess Odd combo9_game) = Inr 11"
proof -
  have c: "correct Odd (Number 5)" by (simp add: correct_def js_rem_def)
  from correct_guess_gain [of 0 combo9_game "Number 5" "[Number 6, Number 7, Number 8, Number 9]" Odd]
    c combo9_game_fields
  obtain s1 where "handleGuess Odd combo9_game = Inr s1" "combo s1 = 10" "score s1 = 11"
    by auto
  with c combo9_game_fields show ?thesis by simp
qed

text \<open>
  Claim C5. A guess while the round is not being played, and a guess while the lock is on,
  return the state they were given, every field of it, and raise nothing; a tick while
  the round is not being played returns the state it was given.
\<close>

theorem ignored_guess_and_tick:
  "(status s1 \<noteq> Playing \<longrightarrow> handleGuess g s1 = Inr s1 \<and> tick s1 = s1) \<and>
   (isLocked s2 \<longrightarrow> handleGuess g s2 = Inr s2)"
  by (simp add: handleGuess_ignored tick_ended)

theorem ignored_guess_and_tick_witness:
  "status (initialGame cyclic_digits) \<noteq> Playing \<and>
   handleGuess Even (initialGame cyclic_digits) = Inr (initialGame cyclic_digits) \<and>
   tick (initialGame cyclic_digits) = initialGame cyclic_digits \<and>
   status locked_game = Playing \<and> isLocked locked_game \<and>
   handleGuess Even locked_game = Inr locked_game"
proof -
  have a: "status (initialGame cyclic_digits) \<noteq> Playing" by (simp add: initialGame_fields)
  have b: "isLocked locked_game" "status locked_game = Playing"
    by (simp_all add: locked_game_def resetGame_fields)
  from ignored_guess_and_tick [of "initialGame cyclic_digits" Even locked_game] a b
  show ?thesis by simp
qed

text \<open>
  Claim C10. For every challenge, a guess of even is correct exactly when
  \<open>isChallengeEven\<close> holds and a guess of odd exactly when it fails, so exactly one of the
  two is correct. \<open>isChallengeEven\<close> is mathematical parity: of the value for a number
  challenge, and of the evaluated result for an expression challenge whenever that result
  is a number, negative ones included; \<open>0 - 5\<close> evaluates to \<open>-5\<close> and is judged odd. In a
  round being played with the lock off, \<open>handleGuess\<close> engages the lock exactly when the
  guess is not correct in this sense.
\<close>

theorem guess_directions_complementary:
  "correct Even ch = isChallengeEven ch \<and> correct Odd ch = (\<not> isChallengeEven ch) \<and>
   correct Even ch \<noteq> correct Odd ch \<and>
   isChallengeEven (Number v) = even v \<and>
   isChallengeEven (Expression ts ops) = (\<exists>v. evaluateExpression ts ops = Some v \<and> even v) \<and>
   evaluateExpression [0, 5] [Some Minus] = Some (- 5) \<and>
   correct Odd (Expression [0, 5] [Some Minus]) \<and>
   \<not> correct Even (Expression [0, 5] [Some Minus]) \<and>
   (status s = Playing \<and> \<not> isLocked s \<and> queue s = ch # rest \<longrightarrow>
      (\<exists>s1. handleGuess g s = Inr s1 \<and> isLocked s1 = (\<not> correct g ch)))"
proof (intro conjI impI)
  show e: "evaluateExpression [0, 5] [Some Minus] = Some (- 5)"
    by (simp add: evaluateExpression_def term_at_def js_arith_def)
  show "correct Odd (Expression [0, 5] [Some Minus])"
    by (simp add: correct_def e js_rem_2)
  show "\<not> correct Even (Expression [0, 5] [Some Minus])"
    by (simp add: correct_def e js_rem_2)
  show "isChallengeEven (Number v) = even v" by (rule isChallengeEven_parity)
  show "isChallengeEven (Expression ts ops) = (\<exists>v. evaluateExpression ts ops = Some v \<and> even v)"
    by (rule isChallengeEven_parity)
  show "correct Even ch = isChallengeEven ch" by (simp add: correct_def)
  show "correct Odd ch = (\<not> isChallengeEven ch)" by (simp add: correct_def)
  show "correct Even ch \<noteq> correct Odd ch" by (simp add: correct_def)
next
  assume a: "status s = Playing \<and> \<not> isLocked s \<and> queue s = ch # rest"
  show "\<exists>s1. handleGuess g s = Inr s1 \<and> isLocked s1 = (\<not> correct g ch)"
  proof (cases "correct g ch")
    case True
    with a show ?thesis by (simp add: handleGuess_correct advanceQueue_fields)
  next
    case False
    with a show ?thesis by (simp add: handleGuess_wrong)
  qed
qed

theorem guess_directions_complementary_witness:
  "status combo9_game = Playing \<and> \<not> isLocked combo9_game \<and>
   queue combo9_game = Number 5 # [Number 6, Number 7, Number 8, Number 9] \<and>
   \<not> correct Even (Number 5) \<and> correct Odd (Number 5) \<and>
   map_sum id isLocked (handleGuess Even combo9_game) = Inr True \<and>
   map_sum id isLocked (handleGuess Odd combo9_game) = Inr False"
proof -
  have c: "\<not> correct Even (Number 5)" "correct Odd (Number 5)"
    by (simp_all add: correct_def js_rem_def)
  from guess_directions_complementary
         [of "Number 5" 0 "[]" "[]" combo9_game "[Number 6, Number 7, Number 8, Number 9]" Even]
    c combo9_game_fields
  obtain s1 where e: "handleGuess Even combo9_game = Inr s1" "isLocked s1" by auto
  from guess_directions_complementary
         [of "Number 5" 0 "[]" "[]" combo9_game "[Number 6, Number 7, Number 8, Number 9]" Odd]
    c combo9_game_fields
  obtain s2 where o: "handleGuess Odd combo9_game = Inr s2" "\<not> isLocked s2" by auto
  from c e o combo9_game_fields show ?thesis by simp
qed

lemma initialGame_inv: "game_inv (initialGame r)"
  by (simp add: game_inv_def initialGame_fields generateQueue_length)

lemma step_inv:
  assumes "game_inv s"
  shows "\<exists>s1. step e s = Inr s1 \<and> game_inv s1"
proof (cases e)
  case (GuessEv g)
  show ?thesis
  proof (cases "status s \<noteq> Playing \<or> isLocked s")
    case True
    with assms GuessEv show ?thesis by (simp add: handleGuess_ignored)
  next
    case False
    from assms obtain current rest where q: "queue s = current # rest"
      by (cases "queue s") (simp_all add: game_inv_def)
    show ?thesis
    proof (cases "correct g current")
      case True
      with False q have "handleGuess g s =
         Inr (advanceQueue (combo s + 1)
            (s\<lparr>score := score s + getScoreGain (combo s + 1), combo := combo s + 1,
               feedback := Some (CHR ''+'' # numberToString (getScoreGain (combo s + 1)))\<rparr>))"
        by (simp add: handleGuess_correct)
      with assms GuessEv show ?thesis by (simp add: game_inv_def advanceQueue_fields)
    next
      case c: False
      with False q have "handleGuess g s =
         Inr (s\<lparr>feedback := Some ''Wrong!'', combo := 0, isLocked := True,
            timeouts := timeouts s @ [2000]\<rparr>)"
        by (simp add: handleGuess_wrong)
      with assms GuessEv show ?thesis by (simp add: game_inv_def)
    qed
  qed
next
  case TickEv
  with assms show ?thesis by (simp add: game_inv_def tick_def)
next
  case LockExpiryEv
  show ?thesis
  proof (cases "timeouts s")
    case Nil
    with assms LockExpiryEv show ?thesis by (simp add: lockExpiry_idle)
  next
    case (Cons t ts)
    with assms LockExpiryEv show ?thesis by (simp add: game_inv_def lockExpiry_fields)
  qed
next
  case ResetEv
  then show ?thesis by (simp add: game_inv_def resetGame_fields generateQueue_length)
qed

lemma run_inv: "game_inv s \<Longrightarrow> \<exists>s1. run es s = Inr s1 \<and> game_inv s1"
proof (induction es arbitrary: s)
  case Nil
  then show ?case by simp
next
  case (Cons e es)
  from step_inv [OF Cons.prems, of e] obtain s1 where s1: "step e s = Inr s1" "game_inv s1"
    by blast
  from Cons.IH [OF s1(2)] s1(1) show ?case by simp
qed

subsection \<open>The queue\<close>

text \<open>
  Claim C6. \<open>generateQueue 5\<close> produces five challenges, so the first render and every
  reset show five. After any sequence of guesses, ticks, lock expiries and resets from the
  first render, no handler has thrown and the queue still holds five challenges.
  \<open>advanceQueue n\<close> drops the front challenge, keeps the others in their order and appends
  the one challenge that \<open>generateChallenge n\<close> draws next, which keeps a length of five.
\<close>

theorem queue_length_five:
  "length (fst (generateQueue 5 c r)) = 5 \<and> length (queue (initialGame r)) = 5 \<and>
   length (queue (resetGame s0)) = 5 \<and>
   (\<exists>s1. run es (initialGame r) = Inr s1 \<and> length (queue s1) = 5) \<and>
   (queue s = front # rest \<longrightarrow>
      queue (advanceQueue n s) = rest @ [fst (generateChallenge n (rng s))]) \<and>
   (length (queue s) = 5 \<longrightarrow> length (queue (advanceQueue n s)) = 5)"
proof (intro conjI impI)
  from run_inv [OF initialGame_inv, of es r]
  show "\<exists>s1. run es (initialGame r) = Inr s1 \<and> length (queue s1) = 5"
    by (auto simp add: game_inv_def)
qed (simp_all add: generateQueue_length initialGame_fields resetGame_fields advanceQueue_fields)

theorem queue_length_five_witness:
  "queue (initialGame cyclic_digits) = Number 0 # [Number 1, Number 2, Number 3, Number 4] \<and>
   length (queue (initialGame cyclic_digits)) = 5 \<and>
   queue (advanceQueue 0 (initialGame cyclic_digits)) =
     [Number 1, Number 2, Number 3, Number 4, Number 5] \<and>
   length (queue (advanceQueue 0 (initialGame cyclic_digits))) = 5"
proof -
  have q: "queue (initialGame cyclic_digits) = Number 0 # [Number 1, Number 2, Number 3, Number 4]"
    by code_simp
  have g: "fst (generateChallenge 0 (rng (initialGame cyclic_digits))) = Number 5"
    by code_simp
  from queue_length_five [of 0 cyclic_digits "initialGame cyclic_digits" "[]"
      "initialGame cyclic_digits" "Number 0" "[Number 1, Number 2, Number 3, Number 4]" 0] q g
  show ?thesis by simp
qed

lemma ticks_not_playing: "status s \<noteq> Playing \<Longrightarrow> (tick ^^ k) s = s"
  by (induction k) (simp_all add: tick_ended)

lemma ticks_playing:
  "status s = Playing \<Longrightarrow> int k < timeLeft s \<Longrightarrow>
   (tick ^^ k) s = s\<lparr>timeLeft := timeLeft s - int k\<rparr>"
proof (induction k)
  case 0
  then show ?case by simp
next
  case (Suc k)
  then have ih: "(tick ^^ k) s = s\<lparr>timeLeft := timeLeft s - int k\<rparr>" by simp
  from Suc.prems have t: "\<not> timeLeft s - int k \<le> 1" by simp
  have "(tick ^^ Suc k) s = tick ((tick ^^ k) s)" by simp
  also have "\<dots> = tick (s\<lparr>timeLeft := timeLeft s - int k\<rparr>)" by (simp only: ih)
  also have "\<dots> = s\<lparr>timeLeft := timeLeft s - int (Suc k)\<rparr>"
    using Suc.prems(1) t by (simp add: tick_def algebra_simps)
  finally show ?case .
qed

lemma ticks_ended:
  assumes "status s = Playing" and "1 \<le> timeLeft s" and "timeLeft s \<le> int k"
  shows "(tick ^^ k) s = s\<lparr>status := Ended, timeLeft := 0\<rparr>"
proof -
  define n where "n = nat (timeLeft s) - 1"
  from assms have k: "k = (k - Suc n) + Suc n" and n: "int n < timeLeft s"
    and n1: "timeLeft s - int n = 1"
    by (simp_all add: n_def)
  have a: "(tick ^^ n) s = s\<lparr>timeLeft := 1\<rparr>"
    using ticks_playing [OF assms(1) n] n1 by simp
  have b: "(tick ^^ Suc n) s = s\<lparr>status := Ended, timeLeft := 0\<rparr>"
    using assms(1) by (simp add: a tick_def)
  have "(tick ^^ k) s = (tick ^^ (k - Suc n)) ((tick ^^ Suc n) s)"
    by (subst k) (simp only: funpow_add o_apply)
  also have "\<dots> = s\<lparr>status := Ended, timeLeft := 0\<rparr>"
    by (simp only: b) (simp add: ticks_not_playing)
  finally show ?thesis .
qed

lemma ticks_status_time:
  assumes "status s = Playing" and "1 \<le> timeLeft s"
  shows "status ((tick ^^ k) s) = (if int k < timeLeft s then Playing else Ended)"
    and "timeLeft ((tick ^^ k) s) = max 0 (timeLeft s - int k)"
proof -
  show "status ((tick ^^ k) s) = (if int k < timeLeft s then Playing else Ended)"
    using assms by (simp add: ticks_playing ticks_ended)
  show "timeLeft ((tick ^^ k) s) = max 0 (timeLeft s - int k)"
    using assms by (cases "int k < timeLeft s") (simp_all add: ticks_playing ticks_ended)
qed

subsection \<open>The clock\<close>

text \<open>
  Claim C9. In every state that a run from the first render reaches with the round being
  played: a tick takes one second off \<open>timeLeft\<close>, which stays non-negative; the status
  after the tick is \<open>Ended\<close> exactly when \<open>timeLeft\<close> has reached 0; and after \<open>k\<close> ticks in a
  row the round is still being played if \<open>k\<close> is less than the time that was left and is
  ended with \<open>timeLeft\<close> 0 otherwise, so the status changes once. A tick on an ended round
  changes nothing. From any state being played with 60 seconds left, fewer than 60 ticks
  leave the round being played, and 60 ticks or more leave it ended with \<open>timeLeft\<close> 0 and
  every further tick without effect.
\<close>

theorem round_timer:
  assumes "run es (initialGame r) = Inr s" and "status s = Playing"
  shows "timeLeft (tick s) = timeLeft s - 1 \<and> 0 \<le> timeLeft (tick s) \<and>
    (status (tick s) = Ended) = (timeLeft (tick s) = 0) \<and>
    (\<forall>k. status ((tick ^^ k) s) = (if int k < timeLeft s then Playing else Ended) \<and>
         timeLeft ((tick ^^ k) s) = max 0 (timeLeft s - int k)) \<and>
    (status s1 = Ended \<longrightarrow> tick s1 = s1) \<and>
    (status s2 = Playing \<and> timeLeft s2 = 60 \<longrightarrow>
       (\<forall>k<60. status ((tick ^^ k) s2) = Playing) \<and>
       (\<forall>k\<ge>60. status ((tick ^^ k) s2) = Ended \<and> timeLeft ((tick ^^ k) s2) = 0 \<and>
                tick ((tick ^^ k) s2) = (tick ^^ k) s2))"
proof -
  from run_inv [OF initialGame_inv, of es r] assms(1) have "game_inv s" by auto
  with assms(2) have t: "1 \<le> timeLeft s" by (simp add: game_inv_def)
  have a: "timeLeft (tick s) = timeLeft s - 1 \<and> 0 \<le> timeLeft (tick s) \<and>
    (status (tick s) = Ended) = (timeLeft (tick s) = 0)"
    using assms(2) t by (auto simp add: tick_def)
  have b: "\<forall>k. status ((tick ^^ k) s) = (if int k < timeLeft s then Playing else Ended) \<and>
         timeLeft ((tick ^^ k) s) = max 0 (timeLeft s - int k)"
    using ticks_status_time [OF assms(2) t] by simp
  have c: "status s1 = Ended \<longrightarrow> tick s1 = s1" by (simp add: tick_ended)
  have d: "status s2 = Playing \<and> timeLeft s2 = 60 \<longrightarrow>
       (\<forall>k<60. status ((tick ^^ k) s2) = Playing) \<and>
       (\<forall>k\<ge>60. status ((tick ^^ k) s2) = Ended \<and> timeLeft ((tick ^^ k) s2) = 0 \<and>
                tick ((tick ^^ k) s2) = (tick ^^ k) s2)"
  proof
    assume p: "status s2 = Playing \<and> timeLeft s2 = 60"
    then have q: "status s2 = Playing" "1 \<le> timeLeft s2" by simp_all
    show "(\<forall>k<60. status ((tick ^^ k) s2) = Playing) \<and>
       (\<forall>k\<ge>60. status ((tick ^^ k) s2) = Ended \<and> timeLeft ((tick ^^ k) s2) = 0 \<and>
                tick ((tick ^^ k) s2) = (tick ^^ k) s2)"
      using p by (simp add: ticks_status_time [OF q] tick_ended)
  qed
  from a b c d show ?thesis by blast
qed

theorem round_timer_witness:
  "run [ResetEv] (initialGame cyclic_digits) = Inr (resetGame (initialGame cyclic_digits)) \<and>
   status (resetGame (initialGame cyclic_digits)) = Playing \<and>
   timeLeft (resetGame (initialGame cyclic_digits)) = 60 \<and>
   timeLeft (tick (resetGame (initialGame cyclic_digits))) = 59 \<and>
   status ((tick ^^ 59) (resetGame (initialGame cyclic_digits))) = Playing \<and>
   status ((tick ^^ 60) (resetGame (initialGame cyclic_digits))) = Ended \<and>
   timeLeft ((tick ^^ 61) (resetGame (initialGame cyclic_digits))) = 0 \<and>
   status (initialGame cyclic_digits) = Ended \<and>
   tick (initialGame cyclic_digits) = initialGame cyclic_digits"
proof -
  let ?s = "resetGame (initialGame cyclic_digits)"
  have a: "run [ResetEv] (initialGame cyclic_digits) = Inr ?s" by simp
  have b: "status ?s = Playing" "timeLeft ?s = 60" by (simp_all add: resetGame_fields)
  have c: "status (initialGame cyclic_digits) = Ended" by (simp add: initialGame_fields)
  note w = round_timer [OF a b(1), of "initialGame cyclic_digits" ?s]
  from w have "(59::nat) < 60 \<longrightarrow> status ((tick ^^ 59) ?s) = Playing" using b by blast
  moreover from w have "(60::nat) \<ge> 60 \<longrightarrow> status ((tick ^^ 60) ?s) = Ended" using b by blast
  moreover from w have "(61::nat) \<ge> 60 \<longrightarrow> timeLeft ((tick ^^ 61) ?s) = 0" using b by blast
  moreover from w have "timeLeft (tick ?s) = timeLeft ?s - 1" by blast
  moreover from w c have "tick (initialGame cyclic_digits) = initialGame cyclic_digits" by blast
  ultimately show ?thesis using a b c by simp
qed

lemma locked_step_queue:
  assumes "isLocked sa" and "step e sa = Inr sb" and "isLocked sb"
  shows "queue sb = queue sa"
proof (cases e)
  case (GuessEv g)
  with assms show ?thesis by (simp add: handleGuess_ignored)
next
  case TickEv
  with assms show ?thesis by (auto simp add: tick_fields)
next
  case LockExpiryEv
  with assms show ?thesis
    by (cases "timeouts sa") (auto simp add: lockExpiry_idle lockExpiry_fields)
next
  case ResetEv
  with assms show ?thesis by (auto simp add: resetGame_fields)
qed

lemma locked_window:
  assumes "isLocked s1" and "set es \<subseteq> insert TickEv (range GuessEv)"
  shows "\<exists>s2. run es s1 = Inr s2 \<and> isLocked s2 \<and> queue s2 = queue s1 \<and>
           feedback s2 = feedback s1 \<and> timeouts s2 = timeouts s1 \<and> combo s2 = combo s1 \<and>
           score s2 = score s1 \<and> rng s2 = rng s1"
  using assms
proof (induction es arbitrary: s1)
  case Nil
  then show ?case by simp
next
  case (Cons e es)
  from Cons.prems(2) have e: "e = TickEv \<or> (\<exists>g. e = GuessEv g)"
    and es: "set es \<subseteq> insert TickEv (range GuessEv)"
    by auto
  from e Cons.prems(1) obtain sm where sm: "step e s1 = Inr sm" "isLocked sm"
    "queue sm = queue s1" "feedback sm = feedback s1" "timeouts sm = timeouts s1"
    "combo sm = combo s1" "score sm = score s1" "rng sm = rng s1"
    by (auto simp add: handleGuess_ignored tick_fields)
  from Cons.IH [OF sm(2) es] sm show ?case by simp
qed

subsection \<open>The lock\<close>

text \<open>
  Claim C4 says that the lock expiry that follows a wrong guess is the one that guess
  registered, that it runs once, and that the challenge answered wrongly is replaced only
  then. That fails when an expiry of the round before is still registered. A round is
  played to its last second, a wrong guess registers an expiry, the next tick ends the
  round and the player starts again: the fresh round is being played, the lock is off, the
  queue shows 0, 1, 2, 3, 4 and the old expiry is still registered. A wrong guess (odd, on
  the 0) engages the lock and registers a second expiry. The first expiry to run is the
  old one: it releases the lock and replaces the 0 while the expiry of this guess is
  still registered. When that one runs, the queue moves a second time and drops the 1,
  which was never answered.
\<close>

theorem stale_expiry_releases_lock:
  "map_sum id status
     (run ([ResetEv] @ replicate 59 TickEv @ [GuessEv Even, TickEv, ResetEv])
        (initialGame cyclic_digits)) = Inr Playing \<and>
   map_sum id isLocked
     (run ([ResetEv] @ replicate 59 TickEv @ [GuessEv Even, TickEv, ResetEv])
        (initialGame cyclic_digits)) = Inr False \<and>
   map_sum id isLocked
     (run ([ResetEv] @ replicate 59 TickEv @ [GuessEv Even, TickEv, ResetEv, GuessEv Odd])
        (initialGame cyclic_digits)) = Inr True \<and>
   map_sum id queue
     (run ([ResetEv] @ replicate 59 TickEv @ [GuessEv Even, TickEv, ResetEv, GuessEv Odd])
        (initialGame cyclic_digits)) =
     Inr [Number 0, Number 1, Number 2, Number 3, Number 4] \<and>
   map_sum id timeouts
     (run ([ResetEv] @ replicate 59 TickEv @ [GuessEv Even, TickEv, ResetEv, GuessEv Odd])
        (initialGame cyclic_digits)) = Inr [2000, 2000] \<and>
   map_sum id isLocked
     (run ([ResetEv] @ replicate 59 TickEv @
           [GuessEv Even, TickEv, ResetEv, GuessEv Odd, LockExpiryEv])
        (initialGame cyclic_digits)) = Inr False \<and>
   map_sum id queue
     (run ([ResetEv] @ replicate 59 TickEv @
           [GuessEv Even, TickEv, ResetEv, GuessEv Odd, LockExpiryEv])
        (initialGame cyclic_digits)) =
     Inr [Number 1, Number 2, Number 3, Number 4, Number 5] \<and>
   map_sum id timeouts
     (run ([ResetEv] @ replicate 59 TickEv @
           [GuessEv Even, TickEv, ResetEv, GuessEv Odd, LockExpiryEv])
        (initialGame cyclic_digits)) = Inr [2000] \<and>
   map_sum id queue
     (run ([ResetEv] @ replicate 59 TickEv @
           [GuessEv Even, TickEv, ResetEv, GuessEv Odd, LockExpiryEv, LockExpiryEv])
        (initialGame cyclic_digits)) =
     Inr [Number 2, Number 3, Number 4, Number 5, Number 6] \<and>
   map_sum id timeouts
     (run ([ResetEv] @ replicate 59 TickEv @
           [GuessEv Even, TickEv, ResetEv, GuessEv Odd, LockExpiryEv, LockExpiryEv])
        (initialGame cyclic_digits)) = Inr []"
  by code_simp

text \<open>
  Claim C4, amended. A guess that \<open>handleGuess\<close> judges (the round is being played, the lock
  is off) and finds wrong sets the combo to 0, engages the lock, sets the feedback
  \<open>Wrong!\<close>, leaves the queue as it is, and registers one lock expiry, with a delay of two
  periods of the clock, behind the expiries registered before. Through any guesses and
  ticks that follow, the lock stays on, the feedback stays and the challenge answered
  wrongly stays at the front; no handler moves the queue in a step that starts and ends
  with the lock on. The next lock expiry to run releases the lock, clears the feedback,
  drops that front challenge and appends one generated at combo 0. When no expiry was
  registered at the time of the guess, that expiry is the one the guess registered, and
  after it none is registered: there is nothing to run a second time. When one was (a
  reset leaves it), the expiry that runs first is the oldest of those, the expiry of this
  guess stays registered, and the next expiry to run moves the queue once more.
\<close>

theorem wrong_guess_lock:
  assumes "status s = Playing" and "\<not> isLocked s" and "queue s = current # rest"
    and "\<not> correct g current"
  shows "\<exists>s1. handleGuess g s = Inr s1 \<and> combo s1 = 0 \<and> isLocked s1 \<and>
           feedback s1 = Some ''Wrong!'' \<and> queue s1 = current # rest \<and>
           timeouts s1 = timeouts s @ [2 * tickPeriod] \<and>
           (\<forall>es. set es \<subseteq> insert TickEv (range GuessEv) \<longrightarrow>
              (\<exists>s2. run es s1 = Inr s2 \<and> isLocked s2 \<and> feedback s2 = Some ''Wrong!'' \<and>
                    queue s2 = current # rest \<and> timeouts s2 = timeouts s1 \<and>
                    \<not> isLocked (lockExpiry s2) \<and> feedback (lockExpiry s2) = None \<and>
                    queue (lockExpiry s2) = rest @ [fst (generateChallenge 0 (rng s2))] \<and>
                    (timeouts s = [] \<longrightarrow>
                       timeouts (lockExpiry s2) = [] \<and>
                       lockExpiry (lockExpiry s2) = lockExpiry s2) \<and>
                    (timeouts s \<noteq> [] \<longrightarrow>
                       timeouts (lockExpiry s2) = tl (timeouts s) @ [2 * tickPeriod] \<and>
                       queue (lockExpiry (lockExpiry s2)) =
                         drop 1 (queue (lockExpiry s2)) @
                         [fst (generateChallenge 0 (rng (lockExpiry s2)))]))) \<and>
           (\<forall>e sa sb. isLocked sa \<and> step e sa = Inr sb \<and> isLocked sb \<longrightarrow> queue sb = queue sa)"
proof -
  let ?s1 = "s\<lparr>feedback := Some ''Wrong!'', combo := 0, isLocked := True,
               timeouts := timeouts s @ [2000]\<rparr>"
  have h: "handleGuess g s = Inr ?s1" using assms by (rule handleGuess_wrong)
  have w: "\<exists>s2. run es ?s1 = Inr s2 \<and> isLocked s2 \<and> feedback s2 = Some ''Wrong!'' \<and>
                queue s2 = current # rest \<and> timeouts s2 = timeouts ?s1 \<and>
                \<not> isLocked (lockExpiry s2) \<and> feedback (lockExpiry s2) = None \<and>
                queue (lockExpiry s2) = rest @ [fst (generateChallenge 0 (rng s2))] \<and>
                (timeouts s = [] \<longrightarrow>
                   timeouts (lockExpiry s2) = [] \<and> lockExpiry (lockExpiry s2) = lockExpiry s2) \<and>
                (timeouts s \<noteq> [] \<longrightarrow>
                   timeouts (lockExpiry s2) = tl (timeouts s) @ [2000] \<and>
                   queue (lockExpiry (lockExpiry s2)) =
                     drop 1 (queue (lockExpiry s2)) @
                     [fst (generateChallenge 0 (rng (lockExpiry s2)))])"
    if es: "set es \<subseteq> insert TickEv (range GuessEv)" for es
  proof -
    have "isLocked ?s1" by simp
    from locked_window [OF this es] obtain s2 where s2: "run es ?s1 = Inr s2" "isLocked s2"
      "queue s2 = queue ?s1" "feedback s2 = feedback ?s1" "timeouts s2 = timeouts ?s1"
      by blast
    obtain t ts where t: "timeouts s2 = t # ts" "timeouts s = [] \<longrightarrow> ts = []"
      "timeouts s \<noteq> [] \<longrightarrow> ts = tl (timeouts s) @ [2000]"
      using s2(5) by (cases "timeouts s") simp_all
    note f = lockExpiry_fields [OF t(1)]
    have a: "timeouts s = [] \<longrightarrow> lockExpiry (lockExpiry s2) = lockExpiry s2"
      using t(2) f(7) by (simp add: lockExpiry_idle)
    have b: "timeouts s \<noteq> [] \<longrightarrow>
        queue (lockExpiry (lockExpiry s2)) =
          drop 1 (queue (lockExpiry s2)) @ [fst (generateChallenge 0 (rng (lockExpiry s2)))]"
    proof
      assume "timeouts s \<noteq> []"
      with t(3) f(7) have "timeouts (lockExpiry s2) \<noteq> []" by simp
      then obtain u us where "timeouts (lockExpiry s2) = u # us"
        by (cases "timeouts (lockExpiry s2)") auto
      from lockExpiry_fields(8) [OF this]
      show "queue (lockExpiry (lockExpiry s2)) =
          drop 1 (queue (lockExpiry s2)) @ [fst (generateChallenge 0 (rng (lockExpiry s2)))]" .
    qed
    from s2 t f(5,6,7,8) a b assms(3) show ?thesis by simp
  qed
  have l: "\<forall>e sa sb. isLocked sa \<and> step e sa = Inr sb \<and> isLocked sb \<longrightarrow> queue sb = queue sa"
    using locked_step_queue by blast
  from h w l assms(3) show ?thesis by (simp add: tickPeriod_def)
qed

theorem wrong_guess_lock_witness:
  "status combo9_game = Playing \<and> \<not> isLocked combo9_game \<and>
   queue combo9_game = Number 5 # [Number 6, Number 7, Number 8, Number 9] \<and>
   \<not> correct Even (Number 5) \<and> timeouts combo9_game = [] \<and>
   map_sum id combo (handleGuess Even combo9_game) = Inr 0 \<and>
   map_sum id isLocked (handleGuess Even combo9_game) = Inr True \<and>
   map_sum id queue (handleGuess Even combo9_game) =
     Inr [Number 5, Number 6, Number 7, Number 8, Number 9] \<and>
   map_sum id timeouts (handleGuess Even combo9_game) = Inr [2000] \<and>
   map_sum id queue (run [GuessEv Even, TickEv, GuessEv Odd, TickEv] combo9_game) =
     Inr [Number 5, Number 6, Number 7, Number 8, Number 9] \<and>
   map_sum id queue (run [GuessEv Even, TickEv, GuessEv Odd, TickEv, LockExpiryEv] combo9_game) =
     Inr [Number 6, Number 7, Number 8, Number 9, Number 0] \<and>
   map_sum id timeouts (run [GuessEv Even, TickEv, GuessEv Odd, TickEv, LockExpiryEv] combo9_game) =
     Inr [] \<and>
   status (resetGame locked_game) = Playing \<and> \<not> isLocked (resetGame locked_game) \<and>
   queue (resetGame locked_game) = Number 0 # [Number 1, Number 2, Number 3, Number 4] \<and>
   \<not> correct Odd (Number 0) \<and> timeouts (resetGame locked_game) \<noteq> [] \<and>
   map_sum id isLocked (handleGuess Odd (resetGame locked_game)) = Inr True \<and>
   map_sum id timeouts (handleGuess Odd (resetGame locked_game)) = Inr [2000, 2000] \<and>
   map_sum id timeouts (run [GuessEv Odd, LockExpiryEv] (resetGame locked_game)) = Inr [2000] \<and>
   map_sum id queue (run [GuessEv Odd, LockExpiryEv] (resetGame locked_game)) =
     Inr [Number 1, Number 2, Number 3, Number 4, Number 5]"
proof -
  have c: "\<not> correct Even (Number 5)" "\<not> correct Odd (Number 0)"
    by (simp_all add: correct_def js_rem_def)
  have t: "timeouts combo9_game = []"
    by (simp add: combo9_game_def resetGame_fields initialGame_fields)
  have p: "status (resetGame locked_game) = Playing" "\<not> isLocked (resetGame locked_game)"
    "timeouts (resetGame locked_game) = [2000]"
    by (simp_all add: resetGame_fields locked_game_def)
  have q: "queue (resetGame locked_game) = Number 0 # [Number 1, Number 2, Number 3, Number 4]"
    by code_simp
  from wrong_guess_lock [OF combo9_game_fields(1,2) _ c(1), of "[Number 6, Number 7, Number 8, Number 9]"]
    combo9_game_fields(5)
  obtain s1 where s1: "handleGuess Even combo9_game = Inr s1" "combo s1 = 0" "isLocked s1"
    "queue s1 = [Number 5, Number 6, Number 7, Number 8, Number 9]"
    "timeouts s1 = timeouts combo9_game @ [2 * tickPeriod]"
    by auto
  from wrong_guess_lock [OF p(1,2) q c(2)]
  obtain s3 where s3: "handleGuess Odd (resetGame locked_game) = Inr s3" "isLocked s3"
    "timeouts s3 = timeouts (resetGame locked_game) @ [2 * tickPeriod]"
    by auto
  have r1: "map_sum id queue (run [GuessEv Even, TickEv, GuessEv Odd, TickEv] combo9_game) =
     Inr [Number 5, Number 6, Number 7, Number 8, Number 9]"
    by code_simp
  have r2: "map_sum id queue (run [GuessEv Even, TickEv, GuessEv Odd, TickEv, LockExpiryEv] combo9_game) =
     Inr [Number 6, Number 7, Number 8, Number 9, Number 0]"
    by code_simp
  have r3: "map_sum id timeouts (run [GuessEv Even, TickEv, GuessEv Odd, TickEv, LockExpiryEv] combo9_game) =
     Inr []"
    by code_simp
  have r4: "map_sum id timeouts (run [GuessEv Odd, LockExpiryEv] (resetGame locked_game)) = Inr [2000]"
    by code_simp
  have r5: "map_sum id queue (run [GuessEv Odd, LockExpiryEv] (resetGame locked_game)) =
     Inr [Number 1, Number 2, Number 3, Number 4, Number 5]"
    by code_simp
  from c t p q s1 s3 r1 r2 r3 r4 r5 combo9_game_fields show ?thesis
    by (simp add: tickPeriod_def)
qed

lemma generateChallenge_low_combo:
  assumes "valid_rng r" and "c < 10"
  shows "\<exists>d. fst (generateChallenge c r) = Number d \<and> 0 \<le> d \<and> d \<le> 9"
  using randomInt0to9_range [OF assms(1)] assms(2)
  by (auto simp add: generateChallenge_def Let_def split: prod.splits)

lemma generateQueue_low_combo:
  "valid_rng r \<Longrightarrow> c < 10 \<Longrightarrow>
   \<forall>ch \<in> set (fst (generateQueue n c r)). \<exists>d. ch = Number d \<and> 0 \<le> d \<and> d \<le> 9"
proof (induction n arbitrary: r)
  case 0
  then show ?case by simp
next
  case (Suc n)
  obtain x r1 where x: "generateChallenge c r = (x, r1)" by (cases "generateChallenge c r")
  obtain xs r2 where xs: "generateQueue n c r1 = (xs, r2)" by (cases "generateQueue n c r1")
  from generateChallenge_valid [OF Suc.prems(1), of c] x have v: "valid_rng r1" by simp
  from generateChallenge_low_combo [OF Suc.prems] x
  have "\<exists>d. x = Number d \<and> 0 \<le> d \<and> d \<le> 9" by simp
  with Suc.IH [OF v Suc.prems(2)] x xs show ?case by simp
qed

text \<open>C1cex\<close>

theorem reset_leaves_expiry_pending:
  "map_sum id status
     (run ([ResetEv] @ replicate 59 TickEv @ [GuessEv Even, TickEv, ResetEv])
        (initialGame cyclic_digits)) = Inr Playing \<and>
   map_sum id timeouts
     (run ([ResetEv] @ replicate 59 TickEv @ [GuessEv Even, TickEv, ResetEv])
        (initialGame cyclic_digits)) = Inr [2000] \<and>
   map_sum id queue
     (run ([ResetEv] @ replicate 59 TickEv @ [GuessEv Even, TickEv, ResetEv])
        (initialGame cyclic_digits)) =
     Inr [Number 0, Number 1, Number 2, Number 3, Number 4] \<and>
   map_sum id queue
     (run ([ResetEv] @ replicate 59 TickEv @ [GuessEv Even, TickEv, ResetEv, LockExpiryEv])
        (initialGame cyclic_digits)) =
     Inr [Number 1, Number 2, Number 3, Number 4, Number 5] \<and>
   map_sum id timeouts
     (run ([ResetEv] @ replicate 59 TickEv @ [GuessEv Even, TickEv, ResetEv, LockExpiryEv])
        (initialGame cyclic_digits)) = Inr []"
  by code_simp

text \<open>
  Claim C1, amended. From any state, \<open>resetGame\<close> gives score 0, combo 0, 60 seconds, the
  status \<open>Playing\<close>, the lock off, no feedback, and a queue of five challenges freshly drawn
  at combo 0 (each one a digit from 0 to 9 when the random source is valid). It leaves the
  registered lock expiries as they are: an expiry that a wrong guess registered before the
  reset is still registered after it, and when it runs in the fresh round it leaves the
  lock off and the feedback clear and moves the fresh queue on, dropping its front
  challenge and appending one generated at combo 0.
\<close>

theorem resetGame_state:
  "score (resetGame s) = 0 \<and> combo (resetGame s) = 0 \<and> timeLeft (resetGame s) = 60 \<and>
   status (resetGame s) = Playing \<and> \<not> isLocked (resetGame s) \<and>
   feedback (resetGame s) = None \<and>
   queue (resetGame s) = fst (generateQueue 5 0 (rng s)) \<and> length (queue (resetGame s)) = 5 \<and>
   (valid_rng (rng s) \<longrightarrow>
      (\<forall>ch \<in> set (queue (resetGame s)). \<exists>d. ch = Number d \<and> 0 \<le> d \<and> d \<le> 9)) \<and>
   timeouts (resetGame s) = timeouts s \<and>
   (timeouts s \<noteq> [] \<longrightarrow>
      \<not> isLocked (lockExpiry (resetGame s)) \<and> feedback (lockExpiry (resetGame s)) = None \<and>
      queue (lockExpiry (resetGame s)) =
        drop 1 (queue (resetGame s)) @ [fst (generateChallenge 0 (rng (resetGame s)))] \<and>
      timeouts (lockExpiry (resetGame s)) = tl (timeouts s))"
proof -
  have a: "valid_rng (rng s) \<longrightarrow>
      (\<forall>ch \<in> set (queue (resetGame s)). \<exists>d. ch = Number d \<and> 0 \<le> d \<and> d \<le> 9)"
    using generateQueue_low_combo [of "rng s" 0 5] by (simp add: resetGame_fields)
  have b: "timeouts s \<noteq> [] \<longrightarrow>
      \<not> isLocked (lockExpiry (resetGame s)) \<and> feedback (lockExpiry (resetGame s)) = None \<and>
      queue (lockExpiry (resetGame s)) =
        drop 1 (queue (resetGame s)) @ [fst (generateChallenge 0 (rng (resetGame s)))] \<and>
      timeouts (lockExpiry (resetGame s)) = tl (timeouts s)"
  proof
    assume "timeouts s \<noteq> []"
    then obtain t ts where "timeouts (resetGame s) = t # ts" "ts = tl (timeouts s)"
      by (cases "timeouts s") (simp_all add: resetGame_fields)
    from lockExpiry_fields [OF this(1)] this(2)
    show "\<not> isLocked (lockExpiry (resetGame s)) \<and> feedback (lockExpiry (resetGame s)) = None \<and>
      queue (lockExpiry (resetGame s)) =
        drop 1 (queue (resetGame s)) @ [fst (generateChallenge 0 (rng (resetGame s)))] \<and>
      timeouts (lockExpiry (resetGame s)) = tl (timeouts s)"
      by simp
  qed
  from a b show ?thesis by (simp add: resetGame_fields generateQueue_length)
qed

theorem resetGame_state_witness:
  "valid_rng (rng locked_game) \<and> timeouts locked_game \<noteq> [] \<and>
   status (resetGame locked_game) = Playing \<and> \<not> isLocked (resetGame locked_game) \<and>
   length (queue (resetGame locked_game)) = 5 \<and>
   timeouts (resetGame locked_game) = [2000] \<and>
   timeouts (lockExpiry (resetGame locked_game)) = [] \<and>
   queue (resetGame locked_game) = [Number 0, Number 1, Number 2, Number 3, Number 4] \<and>
   queue (lockExpiry (resetGame locked_game)) =
     [Number 1, Number 2, Number 3, Number 4, Number 5]"
proof -
  have "valid_rng cyclic_digits" by (simp add: valid_rng_def cyclic_digits_def)
  then have "valid_rng (snd (generateQueue 5 0 (snd (generateQueue 5 0 cyclic_digits))))"
    by (intro generateQueue_valid)
  then have v: "valid_rng (rng locked_game)"
    by (simp add: locked_game_def resetGame_fields initialGame_fields)
  have t: "timeouts locked_game = [2000]" by (simp add: locked_game_def)
  have q: "queue (resetGame locked_game) = [Number 0, Number 1, Number 2, Number 3, Number 4]"
    by code_simp
  have g: "fst (generateChallenge 0 (rng (resetGame locked_game))) = Number 5"
    by code_simp
  from resetGame_state [of locked_game] v t q g show ?thesis
    by (simp add: generateQueue_length)
qed

end
